theory Spec2Isabelle
  imports Complex_Main "HOL-Library.Word"
begin

section \<open>JavaScript values\<close>

text \<open>
  A JavaScript string is a sequence of UTF-16 code units; \<open>substring\<close> and \<open>===\<close>
  work on code units. \<open>lit\<close> embeds an ASCII literal of the source.
\<close>

type_synonym jsstring = "16 word list"

definition lit :: "string \<Rightarrow> jsstring" where
  "lit s = map of_char s"

text \<open>
  Numbers are the finite values (taken exactly, as rationals; \<open>-0\<close> is identified with
  \<open>0\<close>), the two infinities and NaN.
\<close>

datatype jsnum = NaN | PosInf | NegInf | Fin rat

text \<open>
  The values \<open>JSON.parse\<close> produces, and \<open>undefined\<close>, which a read of a missing
  property gives. An object lists its own properties, each name once.
\<close>

datatype jsval =
    JUndefined
  | JNull
  | JBool bool
  | JNum jsnum
  | JStr jsstring
  | JArr "jsval list"
  | JObj "(jsstring \<times> jsval) list"

datatype js_error = TypeError | SyntaxError | InvalidStateError

text \<open>A property read \<open>v.k\<close> throws a TypeError when \<open>v\<close> is null or undefined.\<close>

definition nullish :: "jsval \<Rightarrow> bool" where
  "nullish v = (v = JUndefined \<or> v = JNull)"

text \<open>
  \<open>js_get v k\<close> is \<open>v.k\<close> on a value that is not nullish, for the property names the
  components read (none of them is defined on the prototypes of strings, numbers,
  booleans, arrays or plain objects): the own property of an object, undefined otherwise.
\<close>

fun js_get :: "jsval \<Rightarrow> jsstring \<Rightarrow> jsval" where
  "js_get (JObj fs) k = (case map_of fs k of Some v \<Rightarrow> v | None \<Rightarrow> JUndefined)"
| "js_get _ k = JUndefined"

fun truthy :: "jsval \<Rightarrow> bool" where
  "truthy JUndefined = False"
| "truthy JNull = False"
| "truthy (JBool b) = b"
| "truthy (JNum n) = (n \<noteq> NaN \<and> n \<noteq> Fin 0)"
| "truthy (JStr s) = (s \<noteq> [])"
| "truthy (JArr _) = True"
| "truthy (JObj _) = True"

text \<open>The operator \<open>a || b\<close>.\<close>

definition js_or :: "jsval \<Rightarrow> jsval \<Rightarrow> jsval" where
  "js_or a b = (if truthy a then a else b)"


text \<open>The comparison \<open>a > b\<close> on numbers: false as soon as one side is NaN.\<close>

fun js_gt :: "jsnum \<Rightarrow> jsnum \<Rightarrow> bool" where
  "js_gt NaN _ = False"
| "js_gt _ NaN = False"
| "js_gt PosInf b = (b \<noteq> PosInf)"
| "js_gt NegInf _ = False"
| "js_gt (Fin a) PosInf = False"
| "js_gt (Fin a) NegInf = True"
| "js_gt (Fin a) (Fin b) = (b < a)"




section \<open>Dashboard.jsx: the component state and \<open>handleMessage\<close>\<close>

text \<open>The \<open>data\<close> state: one card object per source.\<close>

record card_data =
  cam0 :: jsval
  cam10 :: jsval
  audio :: jsval

text \<open>An element of the \<open>logs\<close> state; \<open>log_id\<close> is the value of \<open>Date.now()\<close>.\<close>

record log_entry =
  log_id :: int
  log_timestamp :: jsval
  log_source :: jsval
  log_type :: jsval
  log_data :: jsval

text \<open>
  The state hooks and refs of \<open>Dashboard\<close>. A WebSocket object and a timer are held by
  their identities (natural numbers); a ref that is \<open>null\<close> is \<open>None\<close>.
\<close>

record dashboard =
  connected :: bool
  data :: card_data
  logs :: "log_entry list"
  wsRef :: "nat option"
  reconnectTimeoutRef :: "nat option"

definition initial :: dashboard where
  "initial =
     \<lparr>connected = False,
      data =
        \<lparr>cam0 = JObj [(lit ''people_count'', JNum (Fin 0)),
                      (lit ''accident_detected'', JBool False),
                      (lit ''fps'', JNum (Fin 0))],
         cam10 = JObj [(lit ''ppe_compliant'', JNum (Fin 0)),
                       (lit ''ppe_non_compliant'', JNum (Fin 0)),
                       (lit ''total_detected'', JNum (Fin 0)),
                       (lit ''fps'', JNum (Fin 0))],
         audio = JObj [(lit ''noise_level'', JNum (Fin 0)),
                       (lit ''alert'', JBool False)]\<rparr>,
      logs = [],
      wsRef = None,
      reconnectTimeoutRef = None\<rparr>"

text \<open>The first test of \<open>handleMessage\<close>: the three message types it ignores.\<close>

definition ignored_type :: "jsval \<Rightarrow> bool" where
  "ignored_type message =
     (js_get message (lit ''type'') = JStr (lit ''connection'')
      \<or> js_get message (lit ''type'') = JStr (lit ''pong'')
      \<or> js_get message (lit ''type'') = JStr (lit ''keepalive''))"

text \<open>The three updaters given to \<open>setData\<close>, chosen by \<open>message.source\<close>.\<close>

definition setData_updater :: "jsval \<Rightarrow> card_data \<Rightarrow> card_data" where
  "setData_updater message prev =
     (if js_get message (lit ''source'') = JStr (lit ''cam0'') then
        prev\<lparr>cam0 := JObj
          [(lit ''people_count'', js_or (js_get message (lit ''people_count'')) (JNum (Fin 0))),
           (lit ''accident_detected'',
              js_or (js_get message (lit ''accident_detected'')) (JBool False)),
           (lit ''accident_type'', js_get message (lit ''accident_type'')),
           (lit ''fps'', js_or (js_get message (lit ''fps'')) (JNum (Fin 0)))]\<rparr>
      else if js_get message (lit ''source'') = JStr (lit ''cam10'') then
        prev\<lparr>cam10 := JObj
          [(lit ''ppe_compliant'', js_or (js_get message (lit ''ppe_compliant'')) (JNum (Fin 0))),
           (lit ''ppe_non_compliant'',
              js_or (js_get message (lit ''ppe_non_compliant'')) (JNum (Fin 0))),
           (lit ''total_detected'',
              js_or (js_get message (lit ''total_detected'')) (JNum (Fin 0))),
           (lit ''missing_items'', js_or (js_get message (lit ''missing_items'')) (JArr [])),
           (lit ''fps'', js_or (js_get message (lit ''fps'')) (JNum (Fin 0)))]\<rparr>
      else if js_get message (lit ''source'') = JStr (lit ''audio'') then
        prev\<lparr>audio := JObj
          [(lit ''noise_level'', js_or (js_get message (lit ''noise_level'')) (JNum (Fin 0))),
           (lit ''threshold'', js_or (js_get message (lit ''threshold'')) (JNum (Fin 85))),
           (lit ''alert'', js_or (js_get message (lit ''alert'')) (JBool False))]\<rparr>
      else prev)"

text \<open>The object literal that \<open>setLogs\<close> puts in front; \<open>now\<close> is \<open>Date.now()\<close>.\<close>

definition new_log :: "int \<Rightarrow> jsval \<Rightarrow> log_entry" where
  "new_log now message =
     \<lparr>log_id = now,
      log_timestamp = js_get message (lit ''timestamp''),
      log_source = js_get message (lit ''source''),
      log_type = js_get message (lit ''type''),
      log_data = message\<rparr>"

definition setLogs_updater :: "int \<Rightarrow> jsval \<Rightarrow> log_entry list \<Rightarrow> log_entry list" where
  "setLogs_updater now message prev = take 50 (new_log now message # prev)"

text \<open>
  \<open>handleMessage\<close>. Every property read in it is a read of \<open>message\<close> itself, so the
  first one, \<open>message.type\<close>, throws for a null message and none throws after it.
\<close>

definition handleMessage :: "int \<Rightarrow> jsval \<Rightarrow> dashboard \<Rightarrow> js_error + dashboard" where
  "handleMessage now message st =
     (if nullish message then Inl TypeError
      else if ignored_type message then Inr st
      else Inr (st\<lparr>data := setData_updater message (data st),
                   logs := setLogs_updater now message (logs st)\<rparr>))"

text \<open>
  \<open>ws.onmessage\<close>: \<open>JSON.parse\<close> (a parameter) and \<open>handleMessage\<close> inside a
  \<open>try\<close> whose \<open>catch\<close> only writes to the console.
\<close>

definition onmessage ::
  "(jsstring \<Rightarrow> js_error + jsval) \<Rightarrow> int \<Rightarrow> jsstring \<Rightarrow> dashboard \<Rightarrow> dashboard" where
  "onmessage parse now text st =
     (case parse text of
        Inl e \<Rightarrow> st
      | Inr message \<Rightarrow>
          (case handleMessage now message st of Inl e \<Rightarrow> st | Inr st' \<Rightarrow> st'))"

text \<open>A sequence of frames, each with the clock value at its arrival, in order.\<close>

fun onmessages ::
  "(jsstring \<Rightarrow> js_error + jsval) \<Rightarrow> (int \<times> jsstring) list \<Rightarrow> dashboard \<Rightarrow> dashboard" where
  "onmessages parse [] st = st"
| "onmessages parse ((now, text) # frames) st =
     onmessages parse frames (onmessage parse now text st)"

text \<open>The entries a sequence of frames adds to the logs, oldest first.\<close>

fun logged :: "(jsstring \<Rightarrow> js_error + jsval) \<Rightarrow> (int \<times> jsstring) list \<Rightarrow> log_entry list" where
  "logged parse [] = []"
| "logged parse ((now, text) # frames) =
     (case parse text of
        Inl e \<Rightarrow> logged parse frames
      | Inr message \<Rightarrow>
          if nullish message \<or> ignored_type message then logged parse frames
          else new_log now message # logged parse frames)"

section \<open>Dashboard.jsx: the WebSocket, the timers and the effects\<close>

text \<open>
  The browser resources the component uses. A socket is its \<open>readyState\<close>, found at
  its identity in \<open>sockets\<close>; a pending timeout and an active interval are an identity
  with the delay in milliseconds; \<open>send_calls\<close> keeps every call of \<open>send\<close>, with
  the socket and its \<open>readyState\<close> at the call.
\<close>

datatype readyState = CONNECTING | OPEN | CLOSING | CLOSED

record browser =
  sockets :: "readyState list"
  timeouts :: "(nat \<times> nat) list"
  intervals :: "(nat \<times> nat) list"
  next_timer :: nat
  send_calls :: "(nat \<times> readyState \<times> jsstring) list"

definition fresh_browser :: browser where
  "fresh_browser =
     \<lparr>sockets = [], timeouts = [], intervals = [], next_timer = 1, send_calls = []\<rparr>"

definition new_WebSocket :: "browser \<Rightarrow> nat \<times> browser" where
  "new_WebSocket b = (length (sockets b), b\<lparr>sockets := sockets b @ [CONNECTING]\<rparr>)"

definition readyState_of :: "browser \<Rightarrow> nat \<Rightarrow> readyState option" where
  "readyState_of b ws = (if ws < length (sockets b) then Some (sockets b ! ws) else None)"

definition set_readyState :: "nat \<Rightarrow> readyState \<Rightarrow> browser \<Rightarrow> browser" where
  "set_readyState ws r b =
     (if ws < length (sockets b) then b\<lparr>sockets := (sockets b)[ws := r]\<rparr> else b)"

definition setTimeout :: "nat \<Rightarrow> browser \<Rightarrow> nat \<times> browser" where
  "setTimeout delay b =
     (next_timer b,
      b\<lparr>timeouts := timeouts b @ [(next_timer b, delay)], next_timer := Suc (next_timer b)\<rparr>)"

definition setInterval :: "nat \<Rightarrow> browser \<Rightarrow> nat \<times> browser" where
  "setInterval delay b =
     (next_timer b,
      b\<lparr>intervals := intervals b @ [(next_timer b, delay)], next_timer := Suc (next_timer b)\<rparr>)"

text \<open>\<open>clearTimeout\<close> and \<open>clearInterval\<close> are one operation on one pool of timers.\<close>

definition clearTimer :: "nat \<Rightarrow> browser \<Rightarrow> browser" where
  "clearTimer t b =
     b\<lparr>timeouts := filter (\<lambda>p. fst p \<noteq> t) (timeouts b),
       intervals := filter (\<lambda>p. fst p \<noteq> t) (intervals b)\<rparr>"

text \<open>
  \<open>ws.send(d)\<close>: the call is recorded; it throws InvalidStateError on a socket that is
  still connecting and takes the data otherwise (a closing or closed socket discards
  it). The result is the exception thrown, if any, and the browser after the call.
\<close>

definition ws_send :: "nat \<Rightarrow> jsstring \<Rightarrow> browser \<Rightarrow> js_error option \<times> browser" where
  "ws_send ws d b =
     (case readyState_of b ws of
        None \<Rightarrow> (Some TypeError, b)
      | Some r \<Rightarrow>
          (if r = CONNECTING then Some InvalidStateError else None,
           b\<lparr>send_calls := send_calls b @ [(ws, r, d)]\<rparr>))"

text \<open>\<open>ws.close()\<close> starts the closing of a connecting or open socket.\<close>

definition ws_close :: "nat \<Rightarrow> browser \<Rightarrow> browser" where
  "ws_close ws b =
     (case readyState_of b ws of
        Some CONNECTING \<Rightarrow> set_readyState ws CLOSING b
      | Some OPEN \<Rightarrow> set_readyState ws CLOSING b
      | _ \<Rightarrow> b)"

text \<open>
  The mounted component: its state, the browser, and the constant \<open>interval\<close> of the
  second effect.
\<close>

record client =
  ui :: dashboard
  env :: browser
  interval :: "nat option"

definition connectWebSocket :: "client \<Rightarrow> client" where
  "connectWebSocket c =
     (let (ws, b) = new_WebSocket (env c)
      in c\<lparr>env := b, ui := (ui c)\<lparr>wsRef := Some ws\<rparr>\<rparr>)"

definition onopen :: "client \<Rightarrow> client" where
  "onopen c = c\<lparr>ui := (ui c)\<lparr>connected := True\<rparr>\<rparr>"

definition onerror :: "client \<Rightarrow> client" where
  "onerror c = c"

text \<open>The callback given to \<open>setTimeout\<close> in \<open>onclose\<close>.\<close>

definition reconnect :: "client \<Rightarrow> client" where
  "reconnect c = connectWebSocket c"

definition onclose :: "client \<Rightarrow> client" where
  "onclose c =
     (let (t, b) = setTimeout 3000 (env c)
      in c\<lparr>env := b, ui := (ui c)\<lparr>connected := False, reconnectTimeoutRef := Some t\<rparr>\<rparr>)"

text \<open>The callback given to \<open>setInterval\<close> in the second effect.\<close>

definition ping :: "client \<Rightarrow> js_error option \<times> client" where
  "ping c =
     (case wsRef (ui c) of
        None \<Rightarrow> (None, c)
      | Some ws \<Rightarrow>
          if readyState_of (env c) ws = Some OPEN then
            (let (e, b) = ws_send ws (lit ''ping'') (env c) in (e, c\<lparr>env := b\<rparr>))
          else (None, c))"

text \<open>The two effects, run in order when the component mounts.\<close>

definition mount :: "browser \<Rightarrow> client" where
  "mount b =
     (let c = connectWebSocket \<lparr>ui = initial, env = b, interval = None\<rparr>;
          (t, b') = setInterval 20000 (env c)
      in c\<lparr>env := b', interval := Some t\<rparr>)"

text \<open>The two cleanups, run in order when it unmounts; a timer identity is never 0.\<close>

definition unmount :: "client \<Rightarrow> client" where
  "unmount c =
     (let b1 = (case wsRef (ui c) of None \<Rightarrow> env c | Some ws \<Rightarrow> ws_close ws (env c));
          b2 = (case reconnectTimeoutRef (ui c) of
                  None \<Rightarrow> b1
                | Some t \<Rightarrow> if t \<noteq> 0 then clearTimer t b1 else b1);
          b3 = (case interval c of None \<Rightarrow> b2 | Some t \<Rightarrow> clearTimer t b2)
      in c\<lparr>env := b3\<rparr>)"

text \<open>
  What the browser can deliver to the component: the four socket events, a timeout that
  expires, an interval that ticks, and the unmounting. An event that the browser cannot
  deliver in a state (a socket already closed, a timer cleared) changes nothing; an
  exception that leaves a timer callback is reported and undoes nothing.
\<close>

datatype event =
    SocketOpen nat
  | SocketMessage nat int jsstring
  | SocketError nat
  | SocketClose nat
  | TimeoutExpires nat
  | IntervalTicks nat
  | Unmount

definition step :: "(jsstring \<Rightarrow> js_error + jsval) \<Rightarrow> client \<Rightarrow> event \<Rightarrow> client" where
  "step parse c ev =
     (case ev of
        SocketOpen ws \<Rightarrow>
          if readyState_of (env c) ws = Some CONNECTING
          then onopen (c\<lparr>env := set_readyState ws OPEN (env c)\<rparr>) else c
      | SocketMessage ws now text \<Rightarrow>
          if readyState_of (env c) ws \<in> {Some OPEN, Some CLOSING}
          then c\<lparr>ui := onmessage parse now text (ui c)\<rparr> else c
      | SocketError ws \<Rightarrow> onerror c
      | SocketClose ws \<Rightarrow>
          if readyState_of (env c) ws \<in> {Some CONNECTING, Some OPEN, Some CLOSING}
          then onclose (c\<lparr>env := set_readyState ws CLOSED (env c)\<rparr>) else c
      | TimeoutExpires t \<Rightarrow>
          if t \<in> fst ` set (timeouts (env c))
          then reconnect
                 (c\<lparr>env := (env c)\<lparr>timeouts := filter (\<lambda>p. fst p \<noteq> t) (timeouts (env c))\<rparr>\<rparr>)
          else c
      | IntervalTicks t \<Rightarrow>
          if t \<in> fst ` set (intervals (env c))
          then snd (ping c) else c
      | Unmount \<Rightarrow> unmount c)"

fun run :: "(jsstring \<Rightarrow> js_error + jsval) \<Rightarrow> client \<Rightarrow> event list \<Rightarrow> client" where
  "run parse c [] = c"
| "run parse c (ev # evs) = run parse (step parse c ev) evs"

text \<open>Every pending reconnection timeout has the delay of 3000 milliseconds.\<close>

definition delays_fixed :: "client \<Rightarrow> bool" where
  "delays_fixed c = (\<forall>p \<in> set (timeouts (env c)). snd p = 3000)"

text \<open>Every call of \<open>send\<close> made so far carried \<open>ping\<close> and met an open socket.\<close>

definition pings_on_open :: "client \<Rightarrow> bool" where
  "pings_on_open c =
     (\<forall>x \<in> set (send_calls (env c)). fst (snd x) = OPEN \<and> snd (snd x) = lit ''ping'')"

section \<open>LogTable.jsx: \<open>formatData\<close>\<close>

text \<open>
  The text of the Details column. The conversions of the language are parameters:
  \<open>toStr\<close> is ToString, applied by a template literal, \<open>toFixed1\<close> is
  \<open>Number.prototype.toFixed(1)\<close> and \<open>stringify\<close> is \<open>JSON.stringify\<close> on a value
  that is not undefined. Only a number has \<open>toFixed\<close>; \<open>substring(0, 50)\<close> keeps the
  first 50 code units.
\<close>

definition formatData ::
  "(jsval \<Rightarrow> js_error + jsstring) \<Rightarrow> (jsnum \<Rightarrow> jsstring) \<Rightarrow> (jsval \<Rightarrow> jsstring) \<Rightarrow>
   log_entry \<Rightarrow> js_error + jsstring" where
  "formatData toStr toFixed1 stringify entry =
     (let d = log_data entry in
      if log_source entry = JStr (lit ''cam0'') then
        (if nullish d then Inl TypeError
         else case toStr (js_or (js_get d (lit ''people_count'')) (JNum (Fin 0))) of
                Inl e \<Rightarrow> Inl e
              | Inr n \<Rightarrow>
                  Inr (lit ''People: '' @ n @
                       (if truthy (js_get d (lit ''accident_detected''))
                        then lit '' | '' @ [0x26A0, 0xFE0F] @ lit '' ACCIDENT'' else [])))
      else if log_source entry = JStr (lit ''cam10'') then
        (if nullish d then Inl TypeError
         else case toStr (js_or (js_get d (lit ''ppe_compliant'')) (JNum (Fin 0))) of
                Inl e \<Rightarrow> Inl e
              | Inr n \<Rightarrow>
                  (case toStr (js_or (js_get d (lit ''ppe_non_compliant'')) (JNum (Fin 0))) of
                     Inl e \<Rightarrow> Inl e
                   | Inr m \<Rightarrow>
                       Inr (lit ''PPE: '' @ n @ lit '' '' @ [0x2713] @ lit '' / '' @ m @
                            lit '' '' @ [0x2717])))
      else if log_source entry = JStr (lit ''audio'') then
        (if nullish d then Inl TypeError
         else case js_or (js_get d (lit ''noise_level'')) (JNum (Fin 0)) of
                JNum n \<Rightarrow>
                  Inr (toFixed1 n @ lit '' dB'' @
                       (if truthy (js_get d (lit ''alert''))
                        then lit '' | '' @ [0xD83D, 0xDD0A] @ lit '' ALERT'' else []))
              | _ \<Rightarrow> Inl TypeError)
      else if d = JUndefined then Inl TypeError
      else Inr (take 50 (stringify d) @ lit ''...''))"

section \<open>CameraCard.jsx: the compliance rate\<close>



section \<open>The backend pipeline: EventQueue and EventStore\<close>

text \<open>
  Modelled from the spec: the EventQueue of the backend (spec 4.2) is not among the
  sources. It has a bounded capacity and keeps its events in arrival order.
\<close>

record 'e event_queue =
  capacity :: nat
  items :: "'e list"

text \<open>
  Modelled from the spec: a queue of capacity \<open>C\<close> starts empty (the backend code that
  creates it is not among the sources).
\<close>

definition new_queue :: "nat \<Rightarrow> 'e event_queue" where
  "new_queue C = \<lparr>capacity = C, items = []\<rparr>"

text \<open>
  Modelled from the spec: \<open>tryEnqueue\<close> of the missing EventQueue (spec 4.2). It
  returns failure at once when the queue is full and discards the arriving event; the
  events already queued stay.
\<close>

definition tryEnqueue :: "'e \<Rightarrow> 'e event_queue \<Rightarrow> bool \<times> 'e event_queue" where
  "tryEnqueue e q =
     (if length (items q) < capacity q then (True, q\<lparr>items := items q @ [e]\<rparr>)
      else (False, q))"

text \<open>
  Modelled from the spec: the queue together with its DropCounter (spec 3), which the
  missing backend keeps per queue.
\<close>

record 'e pipeline =
  queue :: "'e event_queue"
  DropCounter :: nat

text \<open>
  Modelled from the spec: the enqueue attempt of a producer (spec 4.1, in the missing
  SensorWorker): an attempt that fails because the queue is full increments DropCounter.
\<close>

definition enqueue_attempt :: "'e \<Rightarrow> 'e pipeline \<Rightarrow> bool \<times> 'e pipeline" where
  "enqueue_attempt e p =
     (let (ok, q) = tryEnqueue e (queue p)
      in (ok, p\<lparr>queue := q, DropCounter := (if ok then DropCounter p else DropCounter p + 1)\<rparr>))"

text \<open>
  Modelled from the spec: enqueue attempts one after the other with no dequeue between
  them (the queue is thread-safe, so concurrent attempts take effect in some order);
  the results are in the order of the attempts.
\<close>

fun enqueue_attempts :: "'e list \<Rightarrow> 'e pipeline \<Rightarrow> bool list \<times> 'e pipeline" where
  "enqueue_attempts [] p = ([], p)"
| "enqueue_attempts (e # es) p =
     (let (ok, p1) = enqueue_attempt e p;
          (oks, p2) = enqueue_attempts es p1
      in (ok # oks, p2))"

text \<open>
  Modelled from the spec: the Event of spec 3 as a producer emits it (the backend types
  are not among the sources); the payload is left open.
\<close>

record 'p event_fields =
  ev_source :: string
  ev_type :: string
  ev_payload :: 'p
  ev_timestamp :: nat

text \<open>
  Modelled from the spec: a persisted event, with the \<open>id\<close> and \<open>created_at\<close> that
  EventStore assigns (spec 3).
\<close>

record 'p stored_event = "'p event_fields" +
  ev_id :: nat
  ev_created_at :: nat

text \<open>
  Modelled from the spec: the missing EventStore (spec 4.4): the primary log, the
  fallback append-only log and the next identifier to assign.
\<close>

record 'p event_store =
  primary :: "'p stored_event list"
  fallback :: "'p stored_event list"
  next_id :: nat

text \<open>
  Modelled from the spec: what the write to the primary log does during one append
  (spec 4.4 and 7 (d): storage unavailable, or a write error).
\<close>

datatype primary_outcome = PrimaryWritten | PrimaryUnavailable | PrimaryWriteError

text \<open>Modelled from the spec: the status \<open>append\<close> reports (spec 4.4).\<close>

datatype append_status = Persisted | Degraded

text \<open>
  Modelled from the spec: \<open>append\<close> of the missing EventStore (spec 4.4). It assigns
  \<open>id\<close> and \<open>created_at\<close>, records the event in the primary log, and on a primary
  failure writes the same fields to the fallback log and reports degraded mode.
\<close>

definition append ::
  "'p event_fields \<Rightarrow> nat \<Rightarrow> primary_outcome \<Rightarrow> 'p event_store \<Rightarrow>
   (append_status \<times> nat) \<times> 'p event_store" where
  "append e now outcome s =
     (let r = \<lparr>ev_source = ev_source e, ev_type = ev_type e, ev_payload = ev_payload e,
               ev_timestamp = ev_timestamp e, ev_id = next_id s, ev_created_at = now\<rparr>
      in if outcome = PrimaryWritten
         then ((Persisted, next_id s), s\<lparr>primary := primary s @ [r], next_id := Suc (next_id s)\<rparr>)
         else ((Degraded, next_id s), s\<lparr>fallback := fallback s @ [r], next_id := Suc (next_id s)\<rparr>))"

text \<open>
  Modelled from the spec: the identifiers in use in the two logs of the missing
  EventStore.
\<close>

definition stored_ids :: "'p event_store \<Rightarrow> nat list" where
  "stored_ids s = map ev_id (primary s @ fallback s)"

text \<open>
  Modelled from the spec: the invariant of spec 3 that makes the identifiers valid (the
  store that keeps it is not among the sources): each is unique, and below the next one
  to assign.
\<close>

definition ids_valid :: "'p event_store \<Rightarrow> bool" where
  "ids_valid s = (distinct (stored_ids s) \<and> (\<forall>i \<in> set (stored_ids s). i < next_id s))"

section \<open>String literals\<close>

lemma unat_of_char16: "unat (of_char c :: 16 word) = of_char c"
proof -
  have "(of_char c :: nat) < 256"
    using of_char_mod_256 [of c, where ?'a = nat]
    by (metis mod_less_divisor zero_less_numeral)
  then have "(of_char c :: nat) < 2 ^ 16" by (rule less_trans) simp
  moreover have "(of_char c :: 16 word) = of_nat (of_char c)"
    by (simp add: of_nat_of_char)
  ultimately show ?thesis
    by (simp add: unat_of_nat take_bit_nat_eq_self)
qed

lemma of_char16_eq_iff: "(of_char c :: 16 word) = of_char d \<longleftrightarrow> c = d"
proof
  assume "(of_char c :: 16 word) = of_char d"
  then have "unat (of_char c :: 16 word) = unat (of_char d :: 16 word)" by simp
  then show "c = d" by (simp add: unat_of_char16)
qed simp

text \<open>Two literals are the same JavaScript string only when they are the same text.\<close>

lemma lit_eq_iff [simp]: "lit a = lit b \<longleftrightarrow> a = b"
  unfolding lit_def
  by (rule inj_map_eq_map) (simp add: inj_on_def of_char16_eq_iff)

lemma lit_eq_Nil [simp]: "lit s = [] \<longleftrightarrow> s = []"
  by (simp add: lit_def)

lemma length_lit [simp]: "length (lit s) = length s"
  by (simp add: lit_def)

section \<open>\<open>handleMessage\<close>\<close>

lemma js_get_not_nullish: "js_get m k = JStr s \<Longrightarrow> \<not> nullish m"
  by (cases m) (simp_all add: nullish_def)

lemma take_50_Cons: "take 50 (x # xs) = x # take 49 xs"
  by (simp add: take_Cons')

text \<open>The three outcomes of one call.\<close>

lemma handleMessage_cases:
  "handleMessage now m st = Inl TypeError \<and> nullish m
   \<or> handleMessage now m st = Inr st \<and> \<not> nullish m \<and> ignored_type m
   \<or> handleMessage now m st =
        Inr (st\<lparr>data := setData_updater m (data st),
                 logs := new_log now m # take 49 (logs st)\<rparr>) \<and> \<not> nullish m \<and> \<not> ignored_type m"
  by (simp add: handleMessage_def setLogs_updater_def take_50_Cons)

lemma handleMessage_event:
  "\<not> nullish m \<Longrightarrow> \<not> ignored_type m \<Longrightarrow>
   handleMessage now m st =
     Inr (st\<lparr>data := setData_updater m (data st),
              logs := new_log now m # take 49 (logs st)\<rparr>)"
  by (simp add: handleMessage_def setLogs_updater_def take_50_Cons)

text \<open>
  Claim C5. A message whose \<open>type\<close> is \<open>connection\<close>, \<open>pong\<close> or \<open>keepalive\<close> makes
  \<open>handleMessage\<close> return normally with the state it was given: neither the card data
  nor the logs (nor anything else) change.
\<close>

theorem control_messages_ignored:
  assumes "js_get message (lit ''type'') = JStr t"
    and "t \<in> {lit ''connection'', lit ''pong'', lit ''keepalive''}"
  shows "handleMessage now message st = Inr st"
  using assms js_get_not_nullish [OF assms(1)]
  by (auto simp add: handleMessage_def ignored_type_def)

theorem control_messages_ignored_witness:
  "js_get (JObj [(lit ''type'', JStr (lit ''pong'')), (lit ''source'', JStr (lit ''cam0''))])
     (lit ''type'') = JStr (lit ''pong'')
   \<and> handleMessage 1700000000000
       (JObj [(lit ''type'', JStr (lit ''pong'')), (lit ''source'', JStr (lit ''cam0''))])
       initial = Inr initial"
proof -
  let ?m = "JObj [(lit ''type'', JStr (lit ''pong'')), (lit ''source'', JStr (lit ''cam0''))]"
  have a: "js_get ?m (lit ''type'') = JStr (lit ''pong'')" by simp
  have b: "lit ''pong'' \<in> {lit ''connection'', lit ''pong'', lit ''keepalive''}" by simp
  show ?thesis
    using a control_messages_ignored [OF a b, where now = 1700000000000 and st = initial]
    by simp
qed

text \<open>
  Claim C6. An event message with source \<open>cam0\<close>, type \<open>camera_detection\<close>,
  \<open>people_count\<close> 5, \<open>accident_detected\<close> false and \<open>fps\<close> 10 sets the cam0 card to
  these three values, read from the top level of the message (the card's fourth
  property, \<open>accident_type\<close>, is whatever the message has there, undefined when it has
  none), leaves the other cards alone, and puts one entry with that source and type, and
  the message as its data, in front of the logs.
\<close>

theorem cam0_event_handled:
  assumes "js_get m (lit ''source'') = JStr (lit ''cam0'')"
    and "js_get m (lit ''type'') = JStr (lit ''camera_detection'')"
    and "js_get m (lit ''people_count'') = JNum (Fin 5)"
    and "js_get m (lit ''accident_detected'') = JBool False"
    and "js_get m (lit ''fps'') = JNum (Fin 10)"
  shows "handleMessage now m st =
     Inr (st\<lparr>data := (data st)\<lparr>cam0 := JObj
                 [(lit ''people_count'', JNum (Fin 5)),
                  (lit ''accident_detected'', JBool False),
                  (lit ''accident_type'', js_get m (lit ''accident_type'')),
                  (lit ''fps'', JNum (Fin 10))]\<rparr>,
              logs := \<lparr>log_id = now, log_timestamp = js_get m (lit ''timestamp''),
                        log_source = JStr (lit ''cam0''),
                        log_type = JStr (lit ''camera_detection''),
                        log_data = m\<rparr> # take 49 (logs st)\<rparr>)"
  using assms js_get_not_nullish [OF assms(1)]
  by (simp add: handleMessage_def ignored_type_def setData_updater_def setLogs_updater_def
      new_log_def js_or_def take_50_Cons)

theorem cam0_event_handled_witness:
  "handleMessage 1700000000000
     (JObj [(lit ''source'', JStr (lit ''cam0'')),
            (lit ''type'', JStr (lit ''camera_detection'')),
            (lit ''people_count'', JNum (Fin 5)),
            (lit ''accident_detected'', JBool False),
            (lit ''fps'', JNum (Fin 10))]) initial =
   Inr (initial\<lparr>data := (data initial)\<lparr>cam0 := JObj
                 [(lit ''people_count'', JNum (Fin 5)),
                  (lit ''accident_detected'', JBool False),
                  (lit ''accident_type'', JUndefined),
                  (lit ''fps'', JNum (Fin 10))]\<rparr>,
              logs := [\<lparr>log_id = 1700000000000, log_timestamp = JUndefined,
                        log_source = JStr (lit ''cam0''),
                        log_type = JStr (lit ''camera_detection''),
                        log_data =
                          JObj [(lit ''source'', JStr (lit ''cam0'')),
                                (lit ''type'', JStr (lit ''camera_detection'')),
                                (lit ''people_count'', JNum (Fin 5)),
                                (lit ''accident_detected'', JBool False),
                                (lit ''fps'', JNum (Fin 10))]\<rparr>]\<rparr>)"
proof -
  let ?m = "JObj [(lit ''source'', JStr (lit ''cam0'')),
                  (lit ''type'', JStr (lit ''camera_detection'')),
                  (lit ''people_count'', JNum (Fin 5)),
                  (lit ''accident_detected'', JBool False),
                  (lit ''fps'', JNum (Fin 10))]"
  have h1: "js_get ?m (lit ''source'') = JStr (lit ''cam0'')" by simp
  have h2: "js_get ?m (lit ''type'') = JStr (lit ''camera_detection'')" by simp
  have h3: "js_get ?m (lit ''people_count'') = JNum (Fin 5)" by simp
  have h4: "js_get ?m (lit ''accident_detected'') = JBool False" by simp
  have h5: "js_get ?m (lit ''fps'') = JNum (Fin 10)" by simp
  show ?thesis
    using cam0_event_handled [OF h1 h2 h3 h4 h5, where now = 1700000000000 and st = initial]
    by (simp add: initial_def)
qed

text \<open>What \<open>||\<close> replaces by its right operand: the absent and the other falsy values.\<close>

lemma falsy_iff:
  "\<not> truthy v \<longleftrightarrow> v \<in> {JUndefined, JNull, JBool False, JNum (Fin 0), JNum NaN, JStr []}"
  by (cases v) auto

text \<open>
  Claim C7, as stated, fails: a \<open>threshold\<close> of 0 is present in the message below, and
  the audio card gets 85.
\<close>

theorem audio_threshold_zero_counterexample:
  "js_get (JObj [(lit ''source'', JStr (lit ''audio'')),
                 (lit ''type'', JStr (lit ''noise_level'')),
                 (lit ''noise_level'', JNum (Fin 50)),
                 (lit ''threshold'', JNum (Fin 0)),
                 (lit ''alert'', JBool False)]) (lit ''threshold'') = JNum (Fin 0)
   \<and> handleMessage 1700000000000
        (JObj [(lit ''source'', JStr (lit ''audio'')),
               (lit ''type'', JStr (lit ''noise_level'')),
               (lit ''noise_level'', JNum (Fin 50)),
               (lit ''threshold'', JNum (Fin 0)),
               (lit ''alert'', JBool False)]) initial
     = Inr (initial\<lparr>data := (data initial)\<lparr>audio := JObj
                 [(lit ''noise_level'', JNum (Fin 50)),
                  (lit ''threshold'', JNum (Fin 85)),
                  (lit ''alert'', JBool False)]\<rparr>,
               logs := [\<lparr>log_id = 1700000000000, log_timestamp = JUndefined,
                         log_source = JStr (lit ''audio''),
                         log_type = JStr (lit ''noise_level''),
                         log_data =
                           JObj [(lit ''source'', JStr (lit ''audio'')),
                                 (lit ''type'', JStr (lit ''noise_level'')),
                                 (lit ''noise_level'', JNum (Fin 50)),
                                 (lit ''threshold'', JNum (Fin 0)),
                                 (lit ''alert'', JBool False)]\<rparr>]\<rparr>)"
  by (simp add: handleMessage_def nullish_def ignored_type_def setData_updater_def
      setLogs_updater_def new_log_def js_or_def initial_def)

text \<open>
  Claim C7, amended. An event message with source \<open>audio\<close> sets each of
  \<open>noise_level\<close>, \<open>threshold\<close> and \<open>alert\<close> of the audio card to the field of the
  message when that field is truthy, and to the default 0, 85 or false when the field is
  absent or falsy (null, false, 0, NaN, the empty string); the other cards stay. A message
  whose \<open>alert\<close> is true leaves the card with \<open>alert\<close> true.
\<close>

theorem audio_event_handled:
  assumes "js_get m (lit ''source'') = JStr (lit ''audio'')"
    and "\<not> ignored_type m"
  shows "\<exists>st'. handleMessage now m st = Inr st'
      \<and> cam0 (data st') = cam0 (data st) \<and> cam10 (data st') = cam10 (data st)
      \<and> audio (data st') = JObj
           [(lit ''noise_level'',
               if truthy (js_get m (lit ''noise_level'')) then js_get m (lit ''noise_level'')
               else JNum (Fin 0)),
            (lit ''threshold'',
               if truthy (js_get m (lit ''threshold'')) then js_get m (lit ''threshold'')
               else JNum (Fin 85)),
            (lit ''alert'',
               if truthy (js_get m (lit ''alert'')) then js_get m (lit ''alert'')
               else JBool False)]
      \<and> (js_get m (lit ''alert'') = JBool True \<longrightarrow>
           js_get (audio (data st')) (lit ''alert'') = JBool True)"
  using assms js_get_not_nullish [OF assms(1)]
  by (simp add: handleMessage_def setData_updater_def js_or_def nullish_def)

theorem audio_event_handled_witness:
  "handleMessage 1700000000000
     (JObj [(lit ''source'', JStr (lit ''audio'')),
            (lit ''type'', JStr (lit ''noise_level'')),
            (lit ''noise_level'', JNum (Fin 87.5)),
            (lit ''threshold'', JNum (Fin 85)),
            (lit ''alert'', JBool True)]) initial
   = Inr (initial\<lparr>data := (data initial)\<lparr>audio := JObj
                 [(lit ''noise_level'', JNum (Fin 87.5)),
                  (lit ''threshold'', JNum (Fin 85)),
                  (lit ''alert'', JBool True)]\<rparr>,
             logs := [new_log 1700000000000
                        (JObj [(lit ''source'', JStr (lit ''audio'')),
                               (lit ''type'', JStr (lit ''noise_level'')),
                               (lit ''noise_level'', JNum (Fin 87.5)),
                               (lit ''threshold'', JNum (Fin 85)),
                               (lit ''alert'', JBool True)])]\<rparr>)"
proof -
  let ?m = "JObj [(lit ''source'', JStr (lit ''audio'')),
                  (lit ''type'', JStr (lit ''noise_level'')),
                  (lit ''noise_level'', JNum (Fin 87.5)),
                  (lit ''threshold'', JNum (Fin 85)),
                  (lit ''alert'', JBool True)]"
  have h1: "js_get ?m (lit ''source'') = JStr (lit ''audio'')" by simp
  have h2: "\<not> ignored_type ?m" by (simp add: ignored_type_def)
  show ?thesis
    using audio_event_handled [OF h1 h2, where now = 1700000000000 and st = initial]
    by (simp add: initial_def handleMessage_def ignored_type_def nullish_def
        setData_updater_def js_or_def setLogs_updater_def)
qed

text \<open>
  Claim C10. An event message (not null, not of an ignored type) whose source is none of
  \<open>cam0\<close>, \<open>cam10\<close> and \<open>audio\<close> leaves the three cards as they are and still gets
  its entry in front of the logs; \<open>formatData\<close> shows that entry by its last branch,
  the first 50 code units of the JSON text of the message followed by three dots.
\<close>

theorem other_source_logged_only:
  assumes "\<not> nullish m" and "\<not> ignored_type m"
    and "js_get m (lit ''source'')
           \<notin> {JStr (lit ''cam0''), JStr (lit ''cam10''), JStr (lit ''audio'')}"
  shows "handleMessage now m st = Inr (st\<lparr>logs := new_log now m # take 49 (logs st)\<rparr>)
    \<and> formatData toStr toFixed1 stringify (new_log now m)
        = Inr (take 50 (stringify m) @ lit ''...'')"
  using assms
  by (simp add: handleMessage_event setData_updater_def formatData_def new_log_def nullish_def)

theorem other_source_logged_only_witness:
  "handleMessage 1700000000000
     (JObj [(lit ''source'', JStr (lit ''door'')), (lit ''type'', JStr (lit ''opened''))])
     initial
   = Inr (initial\<lparr>logs :=
       [new_log 1700000000000
          (JObj [(lit ''source'', JStr (lit ''door'')), (lit ''type'', JStr (lit ''opened''))])]\<rparr>)
   \<and> formatData (\<lambda>v. Inr []) (\<lambda>n. []) (\<lambda>v. lit ''{}'')
       (new_log 1700000000000
          (JObj [(lit ''source'', JStr (lit ''door'')), (lit ''type'', JStr (lit ''opened''))]))
     = Inr (lit ''{}...'')"
proof -
  let ?m = "JObj [(lit ''source'', JStr (lit ''door'')), (lit ''type'', JStr (lit ''opened''))]"
  have h1: "\<not> nullish ?m" by (simp add: nullish_def)
  have h2: "\<not> ignored_type ?m" by (simp add: ignored_type_def)
  have h3: "js_get ?m (lit ''source'')
              \<notin> {JStr (lit ''cam0''), JStr (lit ''cam10''), JStr (lit ''audio'')}" by simp
  show ?thesis
    using other_source_logged_only
        [OF h1 h2 h3, where now = 1700000000000 and st = initial and toStr = "\<lambda>v. Inr []"
           and ?toFixed1.0 = "\<lambda>n. []" and stringify = "\<lambda>v. lit ''{}''"]
    by (simp add: initial_def lit_def)
qed

section \<open>The logs list\<close>

lemma logs_onmessage:
  "logs (onmessage parse now frame st) =
     (case parse frame of
        Inl e \<Rightarrow> logs st
      | Inr m \<Rightarrow> if nullish m \<or> ignored_type m then logs st
                 else take 50 (new_log now m # logs st))"
  by (simp add: onmessage_def handleMessage_def setLogs_updater_def split: sum.splits)

lemma take_take_append: "take n (ys @ take n xs) = take n (ys @ xs)"
  by (induction ys arbitrary: n) (auto simp add: take_Cons')

lemma logs_onmessages:
  "logs (onmessages parse frames st) =
     (if logged parse frames = [] then logs st
      else take 50 (rev (logged parse frames) @ logs st))"
proof (induction frames arbitrary: st)
  case Nil
  show ?case by simp
next
  case (Cons f frames)
  obtain now frame where f: "f = (now, frame)" by (cases f)
  show ?case
  proof (cases "parse frame")
    case (Inl e)
    then show ?thesis using Cons.IH [of "onmessage parse now frame st"]
      by (simp add: f logs_onmessage)
  next
    case (Inr m)
    show ?thesis
    proof (cases "nullish m \<or> ignored_type m")
      case True
      then show ?thesis using Inr Cons.IH [of "onmessage parse now frame st"]
        by (simp add: f logs_onmessage)
    next
      case False
      have "take 50 (rev (logged parse frames) @ take 50 (new_log now m # logs st))
          = take 50 (rev (logged parse frames) @ new_log now m # logs st)"
        by (rule take_take_append)
      then show ?thesis using False Inr Cons.IH [of "onmessage parse now frame st"]
        by (simp add: f logs_onmessage)
    qed
  qed
qed

text \<open>
  Claim C8. The logs list never holds more than 50 entries and is most recent first.
  One call of \<open>handleMessage\<close> on a list of at most 50 entries leaves at most 50, and
  either leaves the list as it is or puts the new entry in front of its first 49; after
  any sequence of frames the list is the entries of the event messages among them, the
  latest first, followed by the old entries, cut to 50; from the initial state, where
  the list is empty, it is the 50 latest such entries.
\<close>

theorem logs_bounded_most_recent_first:
  assumes "length (logs st) \<le> 50"
  shows "(\<forall>now m st'. handleMessage now m st = Inr st' \<longrightarrow>
            length (logs st') \<le> 50
            \<and> (logs st' = logs st \<or> logs st' = new_log now m # take 49 (logs st)))
    \<and> logs (onmessages parse frames st) = take 50 (rev (logged parse frames) @ logs st)
    \<and> length (logs (onmessages parse frames st)) \<le> 50
    \<and> logs (onmessages parse frames initial) = take 50 (rev (logged parse frames))"
proof (intro conjI allI impI)
  fix now m st'
  assume h: "handleMessage now m st = Inr st'"
  show "length (logs st') \<le> 50"
    using handleMessage_cases [of now m st] h assms by auto
  show "logs st' = logs st \<or> logs st' = new_log now m # take 49 (logs st)"
    using handleMessage_cases [of now m st] h by auto
next
  show eq: "logs (onmessages parse frames st) = take 50 (rev (logged parse frames) @ logs st)"
    using assms by (simp add: logs_onmessages)
  show "length (logs (onmessages parse frames st)) \<le> 50"
    unfolding eq by simp
  show "logs (onmessages parse frames initial) = take 50 (rev (logged parse frames))"
    by (simp add: logs_onmessages initial_def)
qed

theorem logs_bounded_most_recent_first_witness:
  "length (logs initial) \<le> 50
   \<and> logs (onmessages
        (\<lambda>s. if s = lit ''null'' then Inr JNull
             else if s = lit ''{'' then Inl SyntaxError
             else Inr (JObj [(lit ''source'', JStr s)]))
        [(1, lit ''a''), (2, lit ''null''), (3, lit ''{''), (4, lit ''b'')] initial)
     = [\<lparr>log_id = 4, log_timestamp = JUndefined, log_source = JStr (lit ''b''),
          log_type = JUndefined, log_data = JObj [(lit ''source'', JStr (lit ''b''))]\<rparr>,
        \<lparr>log_id = 1, log_timestamp = JUndefined, log_source = JStr (lit ''a''),
          log_type = JUndefined, log_data = JObj [(lit ''source'', JStr (lit ''a''))]\<rparr>]
   \<and> map log_id (logs (onmessages (\<lambda>s. Inr (JObj [(lit ''source'', JStr s)]))
        (map (\<lambda>i. (i, lit ''door'')) [1..52]) initial)) = rev [3..52]"
proof -
  have h: "length (logs initial) \<le> 50" by (simp add: initial_def)
  let ?P = "\<lambda>s. Inr (JObj [(lit ''source'', JStr s)])"
  have lg: "logged ?P (map (\<lambda>i. (i, lit ''door'')) is)
      = map (\<lambda>i. new_log i (JObj [(lit ''source'', JStr (lit ''door''))])) is" for "is"
    by (induction "is") (simp_all add: nullish_def ignored_type_def)
  have cut: "take 50 (rev [1..52]) = rev [3..(52::int)]"
    by (simp add: upto_rec1 [of 1] upto_rec1 [of 2])
  have "logs (onmessages ?P (map (\<lambda>i. (i, lit ''door'')) [1..52]) initial)
      = take 50 (rev (logged ?P (map (\<lambda>i. (i, lit ''door'')) [1..52])))"
    using logs_bounded_most_recent_first
        [OF h, where parse = ?P and frames = "map (\<lambda>i. (i, lit ''door'')) [1..52]"]
    by blast
  then have "map log_id (logs (onmessages ?P (map (\<lambda>i. (i, lit ''door'')) [1..52]) initial))
      = take 50 (rev (map log_id (logged ?P (map (\<lambda>i. (i, lit ''door'')) [1..52]))))"
    by (simp only: take_map rev_map)
  also have "map log_id (logged ?P (map (\<lambda>i. (i, lit ''door'')) [1..52])) = [1..52]"
    by (simp add: lg comp_def new_log_def)
  finally have big: "map log_id (logs (onmessages ?P (map (\<lambda>i. (i, lit ''door'')) [1..52]) initial))
      = rev [3..52]"
    by (simp only: cut)
  have small: "logs (onmessages
        (\<lambda>s. if s = lit ''null'' then Inr JNull
             else if s = lit ''{'' then Inl SyntaxError
             else Inr (JObj [(lit ''source'', JStr s)]))
        [(1, lit ''a''), (2, lit ''null''), (3, lit ''{''), (4, lit ''b'')] initial)
     = [\<lparr>log_id = 4, log_timestamp = JUndefined, log_source = JStr (lit ''b''),
          log_type = JUndefined, log_data = JObj [(lit ''source'', JStr (lit ''b''))]\<rparr>,
        \<lparr>log_id = 1, log_timestamp = JUndefined, log_source = JStr (lit ''a''),
          log_type = JUndefined, log_data = JObj [(lit ''source'', JStr (lit ''a''))]\<rparr>]"
    using logs_bounded_most_recent_first
        [OF h,
         where parse = "\<lambda>s. if s = lit ''null'' then Inr JNull
               else if s = lit ''{'' then Inl SyntaxError
               else Inr (JObj [(lit ''source'', JStr s)])"
           and frames = "[(1, lit ''a''), (2, lit ''null''), (3, lit ''{''), (4, lit ''b'')]"]
    by (simp add: initial_def nullish_def ignored_type_def new_log_def)
  show ?thesis
    by (rule conjI [OF h conjI [OF small big]])
qed

section \<open>Reconnection and the liveness ping\<close>

lemma ping_cases:
  "(wsRef (ui c) = Some ws \<and> readyState_of (env c) ws = Some OPEN \<longrightarrow>
      ping c = (None, c\<lparr>env := (env c)\<lparr>send_calls :=
                           send_calls (env c) @ [(ws, OPEN, lit ''ping'')]\<rparr>\<rparr>))
   \<and> ((\<forall>ws. wsRef (ui c) = Some ws \<longrightarrow> readyState_of (env c) ws \<noteq> Some OPEN) \<longrightarrow>
      ping c = (None, c))"
  by (cases "wsRef (ui c)") (auto simp add: ping_def ws_send_def)

lemma ping_timers:
  "timeouts (env (snd (ping c))) = timeouts (env c)"
  "intervals (env (snd (ping c))) = intervals (env c)"
  by (auto simp add: ping_def ws_send_def split: option.splits)

lemma ping_send_calls:
  "send_calls (env (snd (ping c))) = send_calls (env c)
   \<or> (\<exists>ws. send_calls (env (snd (ping c))) = send_calls (env c) @ [(ws, OPEN, lit ''ping'')])"
  by (auto simp add: ping_def ws_send_def split: option.splits)

lemma timeouts_set_readyState [simp]:
  "timeouts (set_readyState ws r b) = timeouts b"
  "intervals (set_readyState ws r b) = intervals b"
  "send_calls (set_readyState ws r b) = send_calls b"
  "next_timer (set_readyState ws r b) = next_timer b"
  by (simp_all add: set_readyState_def)

lemma ws_close_frame [simp]:
  "timeouts (ws_close ws b) = timeouts b"
  "intervals (ws_close ws b) = intervals b"
  "send_calls (ws_close ws b) = send_calls b"
  by (simp_all add: ws_close_def split: option.splits readyState.splits)

lemma clearTimer_frame [simp]:
  "send_calls (clearTimer t b) = send_calls b"
  "timeouts (clearTimer t b) = filter (\<lambda>p. fst p \<noteq> t) (timeouts b)"
  by (simp_all add: clearTimer_def)

lemma unmount_timeouts: "set (timeouts (env (unmount c))) \<subseteq> set (timeouts (env c))"
  by (auto simp add: unmount_def Let_def split: option.splits)

lemma unmount_send_calls: "send_calls (env (unmount c)) = send_calls (env c)"
  by (simp add: unmount_def Let_def split: option.splits)

lemma step_delays_fixed: "delays_fixed c \<Longrightarrow> delays_fixed (step parse c ev)"
proof (cases ev)
  case Unmount
  assume "delays_fixed c"
  then show ?thesis using unmount_timeouts [of c] Unmount
    by (auto simp add: delays_fixed_def step_def)
next
  case (IntervalTicks t)
  assume "delays_fixed c"
  then show ?thesis using IntervalTicks
    by (auto simp add: delays_fixed_def step_def ping_timers)
qed (auto simp add: delays_fixed_def step_def onopen_def onerror_def onclose_def setTimeout_def
      reconnect_def connectWebSocket_def new_WebSocket_def)

lemma step_pings_on_open: "pings_on_open c \<Longrightarrow> pings_on_open (step parse c ev)"
proof (cases ev)
  case Unmount
  assume "pings_on_open c"
  then show ?thesis using Unmount
    by (simp add: pings_on_open_def step_def unmount_send_calls)
next
  case (IntervalTicks t)
  assume "pings_on_open c"
  then show ?thesis using IntervalTicks
    using ping_send_calls [of c] by (auto simp add: pings_on_open_def step_def)
qed (auto simp add: pings_on_open_def step_def onopen_def onerror_def onclose_def setTimeout_def
      reconnect_def connectWebSocket_def new_WebSocket_def)

lemma run_delays_fixed: "delays_fixed c \<Longrightarrow> delays_fixed (run parse c evs)"
  by (induction evs arbitrary: c) (simp_all add: step_delays_fixed)

lemma run_pings_on_open: "pings_on_open c \<Longrightarrow> pings_on_open (run parse c evs)"
  by (induction evs arbitrary: c) (simp_all add: step_pings_on_open)

lemma mount_env:
  "timeouts (env (mount b)) = timeouts b"
  "send_calls (env (mount b)) = send_calls b"
  "intervals (env (mount b)) = intervals b @ [(next_timer b, 20000)]"
  "interval (mount b) = Some (next_timer b)"
  "sockets (env (mount b)) = sockets b @ [CONNECTING]"
  "wsRef (ui (mount b)) = Some (length (sockets b))"
  by (simp_all add: mount_def connectWebSocket_def new_WebSocket_def setInterval_def Let_def)

lemma step_intervals: "ev \<noteq> Unmount \<Longrightarrow> intervals (env (step parse c ev)) = intervals (env c)"
  by (cases ev) (auto simp add: step_def onopen_def onerror_def onclose_def setTimeout_def
      reconnect_def connectWebSocket_def new_WebSocket_def ping_timers)

lemma run_intervals:
  "Unmount \<notin> set evs \<Longrightarrow> intervals (env (run parse c evs)) = intervals (env c)"
  by (induction evs arbitrary: c) (auto simp add: step_intervals)

lemma step_SocketClose:
  assumes "readyState_of (env c) ws \<in> {Some CONNECTING, Some OPEN, Some CLOSING}"
  shows "step parse c (SocketClose ws) =
     c\<lparr>env := (env c)\<lparr>sockets := (sockets (env c))[ws := CLOSED],
                       timeouts := timeouts (env c) @ [(next_timer (env c), 3000)],
                       next_timer := Suc (next_timer (env c))\<rparr>,
       ui := (ui c)\<lparr>connected := False, reconnectTimeoutRef := Some (next_timer (env c))\<rparr>\<rparr>"
  using assms
  by (auto simp add: step_def onclose_def setTimeout_def set_readyState_def readyState_of_def
      split: if_splits)

lemma step_TimeoutExpires:
  assumes "t \<in> fst ` set (timeouts (env c))"
  shows "step parse c (TimeoutExpires t) =
     c\<lparr>env := (env c)\<lparr>timeouts := filter (\<lambda>p. fst p \<noteq> t) (timeouts (env c)),
                       sockets := sockets (env c) @ [CONNECTING]\<rparr>,
       ui := (ui c)\<lparr>wsRef := Some (length (sockets (env c)))\<rparr>\<rparr>"
  using assms
  by (simp add: step_def reconnect_def connectWebSocket_def new_WebSocket_def)

text \<open>
  Claim C3. Every close event of a socket makes the client schedule exactly one timeout,
  with the delay of 3000 milliseconds whatever happened before, and keep its identity in
  \<open>reconnectTimeoutRef\<close>; no socket is created at that moment. When a pending timeout
  expires, exactly one new socket is created, in the connecting state and with an
  identity no earlier socket has, \<open>wsRef\<close> points to it, and the timeout is spent. In
  every state the client reaches after mounting, all pending timeouts have that delay.
\<close>

theorem close_schedules_one_reconnect:
  assumes "readyState_of (env c) ws \<in> {Some CONNECTING, Some OPEN, Some CLOSING}"
  shows "timeouts (env (step parse c (SocketClose ws)))
           = timeouts (env c) @ [(next_timer (env c), 3000)]
    \<and> reconnectTimeoutRef (ui (step parse c (SocketClose ws))) = Some (next_timer (env c))
    \<and> connected (ui (step parse c (SocketClose ws))) = False
    \<and> sockets (env (step parse c (SocketClose ws))) = (sockets (env c))[ws := CLOSED]
    \<and> (\<forall>c2 t. t \<in> fst ` set (timeouts (env c2)) \<longrightarrow>
          sockets (env (step parse c2 (TimeoutExpires t))) = sockets (env c2) @ [CONNECTING]
          \<and> wsRef (ui (step parse c2 (TimeoutExpires t))) = Some (length (sockets (env c2)))
          \<and> t \<notin> fst ` set (timeouts (env (step parse c2 (TimeoutExpires t)))))
    \<and> delays_fixed (run parse (mount fresh_browser) evs)"
proof -
  have "delays_fixed (mount fresh_browser)"
    by (simp add: delays_fixed_def mount_env fresh_browser_def)
  then have "delays_fixed (run parse (mount fresh_browser) evs)"
    by (rule run_delays_fixed)
  moreover have "\<forall>c2 t. t \<in> fst ` set (timeouts (env c2)) \<longrightarrow>
          sockets (env (step parse c2 (TimeoutExpires t))) = sockets (env c2) @ [CONNECTING]
          \<and> wsRef (ui (step parse c2 (TimeoutExpires t))) = Some (length (sockets (env c2)))
          \<and> t \<notin> fst ` set (timeouts (env (step parse c2 (TimeoutExpires t))))"
    by (auto simp add: step_TimeoutExpires)
  ultimately show ?thesis
    by (simp add: step_SocketClose [OF assms])
qed

lemma mount_fresh:
  "mount fresh_browser =
     \<lparr>ui = initial\<lparr>wsRef := Some 0\<rparr>,
      env = \<lparr>sockets = [CONNECTING], timeouts = [], intervals = [(1, 20000)],
             next_timer = 2, send_calls = []\<rparr>,
      interval = Some 1\<rparr>"
  by (simp add: mount_def connectWebSocket_def new_WebSocket_def setInterval_def
      fresh_browser_def Let_def)

theorem close_schedules_one_reconnect_witness:
  "readyState_of (env (run (\<lambda>s. Inl SyntaxError) (mount fresh_browser) [SocketOpen 0])) 0
     = Some OPEN
   \<and> timeouts (env (run (\<lambda>s. Inl SyntaxError) (mount fresh_browser)
                    [SocketOpen 0, SocketClose 0])) = [(2, 3000)]
   \<and> sockets (env (run (\<lambda>s. Inl SyntaxError) (mount fresh_browser)
                    [SocketOpen 0, SocketClose 0])) = [CLOSED]
   \<and> sockets (env (run (\<lambda>s. Inl SyntaxError) (mount fresh_browser)
                    [SocketOpen 0, SocketClose 0, TimeoutExpires 2])) = [CLOSED, CONNECTING]
   \<and> wsRef (ui (run (\<lambda>s. Inl SyntaxError) (mount fresh_browser)
                    [SocketOpen 0, SocketClose 0, TimeoutExpires 2])) = Some 1"
proof -
  let ?c = "step (\<lambda>s. Inl SyntaxError) (mount fresh_browser) (SocketOpen 0)"
  have h: "readyState_of (env ?c) 0 \<in> {Some CONNECTING, Some OPEN, Some CLOSING}"
    by (simp add: mount_fresh step_def readyState_of_def set_readyState_def onopen_def)
  show ?thesis
    using close_schedules_one_reconnect
        [OF h, where parse = "\<lambda>s. Inl SyntaxError" and evs = "[]"]
    by (simp add: mount_fresh step_def readyState_of_def set_readyState_def onopen_def
        onclose_def setTimeout_def reconnect_def connectWebSocket_def new_WebSocket_def)
qed

lemma run_append: "run parse c (evs @ evs') = run parse (run parse c evs) evs'"
  by (induction evs arbitrary: c) simp_all

lemma step_IntervalTicks_open:
  assumes "t \<in> fst ` set (intervals (env c))"
    and "wsRef (ui c) = Some s" and "readyState_of (env c) s = Some OPEN"
  shows "step parse c (IntervalTicks t) =
     c\<lparr>env := (env c)\<lparr>send_calls := send_calls (env c) @ [(s, OPEN, lit ''ping'')]\<rparr>\<rparr>"
  using assms ping_cases [of c s] by (simp add: step_def)

lemma step_IntervalTicks_not_open:
  assumes "\<forall>s. wsRef (ui c) = Some s \<longrightarrow> readyState_of (env c) s \<noteq> Some OPEN"
  shows "step parse c (IntervalTicks t) = c"
  using assms ping_cases [of c] by (simp add: step_def)

text \<open>
  Claim C4. Mounting registers one interval of 20000 milliseconds, which stays
  registered as long as the component is not unmounted. Its callback sends the string
  \<open>ping\<close> over the socket in \<open>wsRef\<close> when that socket is open, and does nothing at
  all (and throws nothing) when there is no socket or its \<open>readyState\<close> is not OPEN.
  In every state the client reaches after mounting, every call of \<open>send\<close> made so far
  carried \<open>ping\<close> and met an open socket. Every tick of a registered interval runs
  that callback: in any state it adds exactly one call of \<open>send\<close>, with \<open>ping\<close>, when
  the socket in \<open>wsRef\<close> is open, and changes nothing otherwise; so after any events
  that do not unmount the component, the next tick of the interval that mounting
  registered sends one more \<open>ping\<close> whenever the current socket is open.
\<close>

theorem ping_every_20s_only_when_open:
  "intervals (env (mount b)) = intervals b @ [(next_timer b, 20000)]
   \<and> (Unmount \<notin> set evs \<longrightarrow>
        intervals (env (run parse (mount b) evs)) = intervals b @ [(next_timer b, 20000)])
   \<and> (wsRef (ui c) = Some ws \<and> readyState_of (env c) ws = Some OPEN \<longrightarrow>
        ping c = (None, c\<lparr>env := (env c)\<lparr>send_calls :=
                             send_calls (env c) @ [(ws, OPEN, lit ''ping'')]\<rparr>\<rparr>))
   \<and> ((\<forall>s. wsRef (ui c) = Some s \<longrightarrow> readyState_of (env c) s \<noteq> Some OPEN) \<longrightarrow>
        ping c = (None, c))
   \<and> pings_on_open (run parse (mount fresh_browser) evs)
   \<and> (\<forall>c2 t s. t \<in> fst ` set (intervals (env c2)) \<and> wsRef (ui c2) = Some s
          \<and> readyState_of (env c2) s = Some OPEN \<longrightarrow>
        step parse c2 (IntervalTicks t) =
          c2\<lparr>env := (env c2)\<lparr>send_calls :=
                  send_calls (env c2) @ [(s, OPEN, lit ''ping'')]\<rparr>\<rparr>)
   \<and> (\<forall>c2 t. (\<forall>s. wsRef (ui c2) = Some s \<longrightarrow> readyState_of (env c2) s \<noteq> Some OPEN) \<longrightarrow>
        step parse c2 (IntervalTicks t) = c2)
   \<and> (\<forall>s. Unmount \<notin> set evs \<and> wsRef (ui (run parse (mount b) evs)) = Some s
          \<and> readyState_of (env (run parse (mount b) evs)) s = Some OPEN \<longrightarrow>
        send_calls (env (run parse (mount b) (evs @ [IntervalTicks (next_timer b)])))
          = send_calls (env (run parse (mount b) evs)) @ [(s, OPEN, lit ''ping'')])"
proof -
  have "pings_on_open (mount fresh_browser)"
    by (simp add: pings_on_open_def mount_env fresh_browser_def)
  then have inv: "pings_on_open (run parse (mount fresh_browser) evs)"
    by (rule run_pings_on_open)
  have tick_open: "\<forall>c2 t s. t \<in> fst ` set (intervals (env c2)) \<and> wsRef (ui c2) = Some s
          \<and> readyState_of (env c2) s = Some OPEN \<longrightarrow>
        step parse c2 (IntervalTicks t) =
          c2\<lparr>env := (env c2)\<lparr>send_calls :=
                  send_calls (env c2) @ [(s, OPEN, lit ''ping'')]\<rparr>\<rparr>"
    using step_IntervalTicks_open by blast
  have tick_other: "\<forall>c2 t. (\<forall>s. wsRef (ui c2) = Some s \<longrightarrow>
          readyState_of (env c2) s \<noteq> Some OPEN) \<longrightarrow> step parse c2 (IntervalTicks t) = c2"
    using step_IntervalTicks_not_open by blast
  have next_tick: "\<forall>s. Unmount \<notin> set evs \<and> wsRef (ui (run parse (mount b) evs)) = Some s
          \<and> readyState_of (env (run parse (mount b) evs)) s = Some OPEN \<longrightarrow>
        send_calls (env (run parse (mount b) (evs @ [IntervalTicks (next_timer b)])))
          = send_calls (env (run parse (mount b) evs)) @ [(s, OPEN, lit ''ping'')]"
  proof (intro allI impI)
    fix s
    assume h: "Unmount \<notin> set evs \<and> wsRef (ui (run parse (mount b) evs)) = Some s
          \<and> readyState_of (env (run parse (mount b) evs)) s = Some OPEN"
    then have "intervals (env (run parse (mount b) evs)) = intervals b @ [(next_timer b, 20000)]"
      by (simp add: run_intervals mount_env)
    then have "next_timer b \<in> fst ` set (intervals (env (run parse (mount b) evs)))"
      by (simp add: image_iff)
    then have "step parse (run parse (mount b) evs) (IntervalTicks (next_timer b)) =
        (run parse (mount b) evs)\<lparr>env := (env (run parse (mount b) evs))\<lparr>send_calls :=
            send_calls (env (run parse (mount b) evs)) @ [(s, OPEN, lit ''ping'')]\<rparr>\<rparr>"
      using h by (intro step_IntervalTicks_open) simp_all
    then show "send_calls (env (run parse (mount b) (evs @ [IntervalTicks (next_timer b)])))
          = send_calls (env (run parse (mount b) evs)) @ [(s, OPEN, lit ''ping'')]"
      by (simp add: run_append)
  qed
  have f1: "intervals (env (mount b)) = intervals b @ [(next_timer b, 20000)]"
    by (simp add: mount_env)
  have f2: "Unmount \<notin> set evs \<longrightarrow>
        intervals (env (run parse (mount b) evs)) = intervals b @ [(next_timer b, 20000)]"
    by (simp add: mount_env run_intervals)
  have f3: "wsRef (ui c) = Some ws \<and> readyState_of (env c) ws = Some OPEN \<longrightarrow>
        ping c = (None, c\<lparr>env := (env c)\<lparr>send_calls :=
                             send_calls (env c) @ [(ws, OPEN, lit ''ping'')]\<rparr>\<rparr>)"
    using ping_cases [of c ws] by simp
  have f4: "(\<forall>s. wsRef (ui c) = Some s \<longrightarrow> readyState_of (env c) s \<noteq> Some OPEN) \<longrightarrow>
        ping c = (None, c)"
    using ping_cases [of c ws] by simp
  show ?thesis
    by (rule conjI [OF f1 conjI [OF f2 conjI [OF f3 conjI [OF f4 conjI [OF inv
          conjI [OF tick_open conjI [OF tick_other next_tick]]]]]]])
qed

theorem ping_every_20s_only_when_open_witness:
  "intervals (env (mount fresh_browser)) = [(1, 20000)]
   \<and> send_calls (env (run (\<lambda>s. Inl SyntaxError) (mount fresh_browser)
        [IntervalTicks 1, SocketOpen 0])) = []
   \<and> send_calls (env (run (\<lambda>s. Inl SyntaxError) (mount fresh_browser)
        [IntervalTicks 1, SocketOpen 0, IntervalTicks 1])) = [(0, OPEN, lit ''ping'')]
   \<and> send_calls (env (run (\<lambda>s. Inl SyntaxError) (mount fresh_browser)
        [IntervalTicks 1, SocketOpen 0, IntervalTicks 1, IntervalTicks 1]))
       = [(0, OPEN, lit ''ping''), (0, OPEN, lit ''ping'')]
   \<and> send_calls (env (run (\<lambda>s. Inl SyntaxError) (mount fresh_browser)
        [IntervalTicks 1, SocketOpen 0, IntervalTicks 1, IntervalTicks 1, SocketClose 0,
         IntervalTicks 1, TimeoutExpires 2, IntervalTicks 1, SocketOpen 1, IntervalTicks 1]))
       = [(0, OPEN, lit ''ping''), (0, OPEN, lit ''ping''), (1, OPEN, lit ''ping'')]"
proof -
  let ?P = "\<lambda>s::jsstring. (Inl SyntaxError :: js_error + jsval)"
  let ?c1 = "run ?P (mount fresh_browser) [IntervalTicks 1, SocketOpen 0]"
  let ?c2 = "run ?P (mount fresh_browser) [IntervalTicks 1, SocketOpen 0, IntervalTicks 1]"
  have nt: "next_timer fresh_browser = 1" "intervals fresh_browser = []"
    by (simp_all add: fresh_browser_def)
  have c1: "?c1 = \<lparr>ui = initial\<lparr>connected := True, wsRef := Some 0\<rparr>,
      env = \<lparr>sockets = [OPEN], timeouts = [], intervals = [(1, 20000)],
             next_timer = 2, send_calls = []\<rparr>,
      interval = Some 1\<rparr>"
    by (simp add: mount_fresh step_def readyState_of_def set_readyState_def onopen_def
        ping_def)
  have a0: "send_calls (env ?c1) = []"
    unfolding c1 by simp
  have h1: "Unmount \<notin> set [IntervalTicks 1, SocketOpen 0] \<and> wsRef (ui ?c1) = Some 0
      \<and> readyState_of (env ?c1) 0 = Some OPEN"
    unfolding c1 by (simp add: readyState_of_def)
  have a1: "send_calls (env ?c2) = [(0, OPEN, lit ''ping'')]"
    using ping_every_20s_only_when_open
        [where b = fresh_browser and evs = "[IntervalTicks 1, SocketOpen 0]" and parse = ?P]
      h1 a0
    by (simp add: nt)
  have h2: "Unmount \<notin> set [IntervalTicks 1, SocketOpen 0, IntervalTicks 1]
      \<and> wsRef (ui ?c2) = Some 0 \<and> readyState_of (env ?c2) 0 = Some OPEN"
    by (simp add: mount_fresh step_def readyState_of_def set_readyState_def onopen_def
        ping_def ws_send_def)
  have a2: "send_calls (env (run ?P (mount fresh_browser)
        [IntervalTicks 1, SocketOpen 0, IntervalTicks 1, IntervalTicks 1]))
       = [(0, OPEN, lit ''ping''), (0, OPEN, lit ''ping'')]"
    using ping_every_20s_only_when_open
        [where b = fresh_browser and evs = "[IntervalTicks 1, SocketOpen 0, IntervalTicks 1]"
           and parse = ?P]
      h2 a1
    by (simp add: nt)
  have a3: "send_calls (env (run ?P (mount fresh_browser)
        [IntervalTicks 1, SocketOpen 0, IntervalTicks 1, IntervalTicks 1, SocketClose 0,
         IntervalTicks 1, TimeoutExpires 2, IntervalTicks 1, SocketOpen 1, IntervalTicks 1]))
       = [(0, OPEN, lit ''ping''), (0, OPEN, lit ''ping''), (1, OPEN, lit ''ping'')]"
    by (simp add: mount_fresh step_def readyState_of_def set_readyState_def onopen_def
        onclose_def setTimeout_def reconnect_def connectWebSocket_def new_WebSocket_def
        ping_def ws_send_def)
  have a4: "intervals (env (mount fresh_browser)) = [(1, 20000)]"
    using ping_every_20s_only_when_open [where b = fresh_browser] by (simp add: nt)
  show ?thesis
    by (rule conjI [OF a4 conjI [OF a0 conjI [OF a1 conjI [OF a2 a3]]]])
qed

section \<open>The PPE compliance rate\<close>

lemma js_gt_zero: "js_gt t (Fin 0) \<longleftrightarrow> t = PosInf \<or> (\<exists>r. t = Fin r \<and> 0 < r)"
  by (cases t) simp_all




section \<open>The event queue and the event store\<close>

lemma enqueue_attempt_eq:
  "enqueue_attempt e p =
     (if length (items (queue p)) < capacity (queue p)
      then (True, p\<lparr>queue := (queue p)\<lparr>items := items (queue p) @ [e]\<rparr>\<rparr>)
      else (False, p\<lparr>DropCounter := DropCounter p + 1\<rparr>))"
  by (simp add: enqueue_attempt_def tryEnqueue_def)

lemma enqueue_attempts_full:
  "capacity (queue p) \<le> length (items (queue p)) \<Longrightarrow>
   enqueue_attempts es p =
     (replicate (length es) False, p\<lparr>DropCounter := DropCounter p + length es\<rparr>)"
  by (induction es arbitrary: p) (simp_all add: enqueue_attempt_eq)

lemma enqueue_attempts_general:
  "enqueue_attempts es p =
     (replicate (min (length es) (capacity (queue p) - length (items (queue p)))) True
        @ replicate (length es - (capacity (queue p) - length (items (queue p)))) False,
      p\<lparr>queue := (queue p)\<lparr>items := items (queue p)
                      @ take (capacity (queue p) - length (items (queue p))) es\<rparr>,
        DropCounter := DropCounter p
                      + (length es - (capacity (queue p) - length (items (queue p))))\<rparr>)"
proof (induction es arbitrary: p)
  case Nil
  show ?case by simp
next
  case (Cons e es)
  show ?case
  proof (cases "length (items (queue p)) < capacity (queue p)")
    case True
    then obtain k where k: "capacity (queue p) - length (items (queue p)) = Suc k"
      by (metis Suc_diff_Suc)
    with True have k': "capacity (queue p) - Suc (length (items (queue p))) = k" by simp
    show ?thesis
      using True by (simp add: enqueue_attempt_eq Cons.IH k k')
  next
    case False
    then have full: "capacity (queue p) \<le> length (items (queue p))" by simp
    then show ?thesis
      using enqueue_attempts_full [OF full, of "e # es"] by simp
  qed
qed

text \<open>
  Claim C1. On a new queue of capacity \<open>C\<close>, of \<open>C + 1\<close> enqueue attempts with no
  dequeue between them exactly one fails, the last: the arriving event is discarded,
  none of the queued events is evicted, the queue holds the first \<open>C\<close> events in their
  arrival order, and DropCounter has grown by exactly 1.
\<close>

theorem one_drop_at_capacity:
  assumes "length es = Suc C"
  shows "enqueue_attempts es \<lparr>queue = new_queue C, DropCounter = n\<rparr> =
     (replicate C True @ [False],
      \<lparr>queue = \<lparr>capacity = C, items = butlast es\<rparr>, DropCounter = Suc n\<rparr>)"
  using assms
  by (simp add: enqueue_attempts_general new_queue_def butlast_conv_take)

theorem one_drop_at_capacity_witness:
  "enqueue_attempts [''a'', ''b'', ''c''] \<lparr>queue = new_queue 2, DropCounter = 0\<rparr> =
     ([True, True, False],
      \<lparr>queue = \<lparr>capacity = 2, items = [''a'', ''b'']\<rparr>, DropCounter = 1\<rparr>)"
proof -
  have h: "length [''a'', ''b'', ''c''] = Suc 2" by simp
  show ?thesis
    using one_drop_at_capacity [OF h, where n = 0]
    by (simp add: numeral_2_eq_2)
qed

lemma stored_ids_append:
  "stored_ids (snd (append e now outcome s)) = stored_ids s @ [next_id s] \<or>
   set (stored_ids (snd (append e now outcome s))) = insert (next_id s) (set (stored_ids s))"
  by (auto simp add: append_def stored_ids_def Let_def)

lemma append_ids_valid: "ids_valid s \<Longrightarrow> ids_valid (snd (append e now outcome s))"
  by (auto simp add: append_def ids_valid_def stored_ids_def Let_def less_Suc_eq)

text \<open>
  Claim C2. When the write to the primary log fails during \<open>append\<close>, the event goes to
  the end of the fallback log with the same source, type, payload and timestamp, it gets
  an identifier that no stored event has (and all identifiers stay valid), and
  \<open>append\<close> reports degraded mode; it has no error result. Whatever the primary write
  does, no stored event is lost and the appended event is in one of the two logs with the
  identifier that \<open>append\<close> returned.
\<close>

theorem primary_failure_goes_to_fallback:
  assumes "ids_valid s" and "outcome \<noteq> PrimaryWritten"
  shows "append e now outcome s =
     ((Degraded, next_id s),
      s\<lparr>fallback := fallback s @
           [\<lparr>ev_source = ev_source e, ev_type = ev_type e, ev_payload = ev_payload e,
             ev_timestamp = ev_timestamp e, ev_id = next_id s, ev_created_at = now\<rparr>],
        next_id := Suc (next_id s)\<rparr>)
    \<and> next_id s \<notin> set (stored_ids s)
    \<and> ids_valid (snd (append e now outcome s))
    \<and> (\<forall>o'. set (primary s) \<subseteq> set (primary (snd (append e now o' s)))
           \<and> set (fallback s) \<subseteq> set (fallback (snd (append e now o' s)))
           \<and> (\<exists>r \<in> set (primary (snd (append e now o' s)) @ fallback (snd (append e now o' s))).
                 ev_source r = ev_source e \<and> ev_type r = ev_type e
                 \<and> ev_payload r = ev_payload e \<and> ev_timestamp r = ev_timestamp e
                 \<and> ev_id r = snd (fst (append e now o' s))))"
proof -
  have "next_id s \<notin> set (stored_ids s)"
    using assms(1) by (auto simp add: ids_valid_def)
  moreover have "ids_valid (snd (append e now outcome s))"
    using assms(1) by (rule append_ids_valid)
  moreover have "\<forall>o'. set (primary s) \<subseteq> set (primary (snd (append e now o' s)))
           \<and> set (fallback s) \<subseteq> set (fallback (snd (append e now o' s)))
           \<and> (\<exists>r \<in> set (primary (snd (append e now o' s)) @ fallback (snd (append e now o' s))).
                 ev_source r = ev_source e \<and> ev_type r = ev_type e
                 \<and> ev_payload r = ev_payload e \<and> ev_timestamp r = ev_timestamp e
                 \<and> ev_id r = snd (fst (append e now o' s)))"
    by (auto simp add: append_def Let_def)
  ultimately show ?thesis
    using assms(2) by (simp add: append_def Let_def)
qed

theorem primary_failure_goes_to_fallback_witness:
  "ids_valid \<lparr>primary = [], fallback = [], next_id = 1\<rparr>
   \<and> append \<lparr>ev_source = ''audio'', ev_type = ''noise_level'', ev_payload = (87::nat),
             ev_timestamp = 10\<rparr> 12 PrimaryUnavailable
       \<lparr>primary = [], fallback = [], next_id = 1\<rparr>
     = ((Degraded, 1),
        \<lparr>primary = [],
         fallback = [\<lparr>ev_source = ''audio'', ev_type = ''noise_level'', ev_payload = 87,
                      ev_timestamp = 10, ev_id = 1, ev_created_at = 12\<rparr>],
         next_id = 2\<rparr>)"
proof -
  have h1: "ids_valid \<lparr>primary = [], fallback = [], next_id = 1\<rparr>"
    by (simp add: ids_valid_def stored_ids_def)
  have h2: "PrimaryUnavailable \<noteq> PrimaryWritten" by simp
  show ?thesis
    using h1 primary_failure_goes_to_fallback
        [OF h1 h2,
         where e = "\<lparr>ev_source = ''audio'', ev_type = ''noise_level'', ev_payload = (87::nat),
                     ev_timestamp = 10\<rparr>" and now = 12]
    by simp
qed

end
